theory Spec2Isabelle
  imports Main "HOL-Library.Sublist"
begin

section \<open>Event documents and the event store\<close>

text \<open>
  The handover application keeps no state of its own: every endpoint of
  \<^verbatim>\<open>handover_app.py\<close> reads or deletes report documents of an Elasticsearch
  index. A document is the JSON object the reporting workers wrote: the store's
  \<^verbatim>\<open>_id\<close> and, under \<^verbatim>\<open>_source\<close>, the fields \<^verbatim>\<open>report_type\<close>,
  \<^verbatim>\<open>report_time\<close>, \<^verbatim>\<open>message\<close> and the dictionary \<^verbatim>\<open>params\<close>.

  The fields under \<^verbatim>\<open>_source\<close> are those of the event record of the data model and
  are taken to be present in every document; what a document carries in \<^verbatim>\<open>params\<close>
  varies with the worker that wrote it.
  The \<^verbatim>\<open>params\<close> dictionary is a map, so that a missing key is visible: the Python
  code indexes it with \<^verbatim>\<open>params['comment']\<close>, which raises \<^verbatim>\<open>KeyError\<close> when the key
  is absent. JSON values are strings or integers. \<^verbatim>\<open>report_time\<close> is the store's
  date value, modelled by the integer it is ordered by.

  A Python 3 string (\<^verbatim>\<open>str\<close>) is a sequence of Unicode code points, and the release
  matcher looks at single characters, so the strings of the data are lists of code
  points; \<open>lit\<close> turns an ASCII literal of the source into such a string. The keys
  of the dictionaries are literals of the program and stay \<^typ>\<open>string\<close>.
\<close>

type_synonym str = "nat list"

definition lit :: "string \<Rightarrow> str" where
  "lit s = map of_char s"

datatype json = JStr str | JNum int

record doc =
  doc_id :: str
  report_type :: str
  report_time :: int
  message :: str
  params :: "string \<rightharpoonup> json"

text \<open>
  The exceptions the endpoints can end with. \<^verbatim>\<open>HTTPRequestError\<close> carries its message
  and HTTP status code; \<^verbatim>\<open>NotFoundError\<close> is the Elasticsearch client's exception for
  an index that does not exist (the one \<^verbatim>\<open>delete_handover\<close> catches).
\<close>

datatype error =
    HTTPRequestError str nat
  | KeyError string
  | TypeError
  | NotFoundError

type_synonym 'a result = "error + 'a"

definition ebind :: "'a result \<Rightarrow> ('a \<Rightarrow> 'b result) \<Rightarrow> 'b result" where
  "ebind m f = (case m of Inl e \<Rightarrow> Inl e | Inr x \<Rightarrow> f x)"

text \<open>Python's \<^verbatim>\<open>d[k]\<close> on a dictionary.\<close>

definition getitem :: "(string \<rightharpoonup> json) \<Rightarrow> string \<Rightarrow> json result" where
  "getitem d k = (case d k of None \<Rightarrow> Inl (KeyError k) | Some v \<Rightarrow> Inr v)"

text \<open>
  A \<^verbatim>\<open>for\<close> loop that appends one entry per element to a list; an exception raised
  by the body ends the loop and the call.
\<close>

fun for_each :: "('a \<Rightarrow> 'b result) \<Rightarrow> 'a list \<Rightarrow> 'b list result" where
  "for_each body [] = Inr []"
| "for_each body (x # xs) =
     (case body x of
        Inl e \<Rightarrow> Inl e
      | Inr y \<Rightarrow> (case for_each body xs of Inl e \<Rightarrow> Inl e | Inr ys \<Rightarrow> Inr (y # ys)))"

text \<open>
  The index is the list of its documents, in arrival order; \<open>None\<close> is an index that
  does not exist.
\<close>

type_synonym index = "doc list option"

text \<open>
  Modelled from the spec: the Elasticsearch client (\<^verbatim>\<open>es.search\<close>,
  \<^verbatim>\<open>es.delete_by_query\<close>) is an external library and not part of the repository.
  The spec gives its contract: \<^verbatim>\<open>query(filter, sort_by, limit, offset)\<close> returns the
  documents that satisfy every exact-match clause, ordered by the sort key, and
  \<^verbatim>\<open>delete_by_filter(filter)\<close> removes the documents that satisfy the filter. Every
  search of the source sorts by \<^verbatim>\<open>report_time\<close> descending, so that order is built in;
  documents with equal \<^verbatim>\<open>report_time\<close> keep their arrival order.
\<close>

definition term_token :: "str \<Rightarrow> doc \<Rightarrow> bool" where
  "term_token t d \<longleftrightarrow> params d ''handover_token'' = Some (JStr t)"

definition term_type :: "str \<Rightarrow> doc \<Rightarrow> bool" where
  "term_type ty d \<longleftrightarrow> report_type d = ty"

definition es_search :: "index \<Rightarrow> (doc \<Rightarrow> bool) list \<Rightarrow> nat \<Rightarrow> nat \<Rightarrow> doc list result" where
  "es_search es must frm sz =
     (case es of
        None \<Rightarrow> Inl NotFoundError
      | Some docs \<Rightarrow>
          Inr (take sz (drop frm
                 (sort_key (\<lambda>d. - report_time d)
                    (filter (\<lambda>d. list_all (\<lambda>clause. clause d) must) docs)))))"

definition es_delete_by_query :: "index \<Rightarrow> (doc \<Rightarrow> bool) list \<Rightarrow> index result" where
  "es_delete_by_query es must =
     (case es of
        None \<Rightarrow> Inl NotFoundError
      | Some docs \<Rightarrow> Inr (Some (filter (\<lambda>d. \<not> list_all (\<lambda>clause. clause d) must) docs)))"

section \<open>The status of one handover: \<^verbatim>\<open>handover_result\<close>\<close>

text \<open>
  The two loop bodies of \<^verbatim>\<open>handover_result\<close>. Each builds the dictionary
  \<^verbatim>\<open>result\<close> key by key, in the order of the source, so the first missing key of
  \<^verbatim>\<open>params\<close> is the one \<^verbatim>\<open>KeyError\<close> names. The body for an \<^verbatim>\<open>INFO\<close> document also reads
  \<^verbatim>\<open>progress_complete\<close> and \<^verbatim>\<open>progress_total\<close>.
\<close>

definition error_detail :: "doc \<Rightarrow> (string \<rightharpoonup> json) result" where
  "error_detail d =
     ebind (getitem (params d) ''comment'') (\<lambda>comment.
     ebind (getitem (params d) ''handover_token'') (\<lambda>token.
     ebind (getitem (params d) ''contact'') (\<lambda>contact.
     ebind (getitem (params d) ''src_uri'') (\<lambda>src_uri.
     ebind (getitem (params d) ''tgt_uri'') (\<lambda>tgt_uri.
       Inr [''id'' \<mapsto> JStr (doc_id d),
            ''message'' \<mapsto> JStr (message d),
            ''comment'' \<mapsto> comment,
            ''handover_token'' \<mapsto> token,
            ''contact'' \<mapsto> contact,
            ''src_uri'' \<mapsto> src_uri,
            ''tgt_uri'' \<mapsto> tgt_uri,
            ''report_time'' \<mapsto> JNum (report_time d)])))))"

definition info_detail :: "doc \<Rightarrow> (string \<rightharpoonup> json) result" where
  "info_detail d =
     ebind (getitem (params d) ''comment'') (\<lambda>comment.
     ebind (getitem (params d) ''handover_token'') (\<lambda>token.
     ebind (getitem (params d) ''contact'') (\<lambda>contact.
     ebind (getitem (params d) ''src_uri'') (\<lambda>src_uri.
     ebind (getitem (params d) ''tgt_uri'') (\<lambda>tgt_uri.
     ebind (getitem (params d) ''progress_complete'') (\<lambda>progress_complete.
     ebind (getitem (params d) ''progress_total'') (\<lambda>progress_total.
       Inr [''id'' \<mapsto> JStr (doc_id d),
            ''message'' \<mapsto> JStr (message d),
            ''comment'' \<mapsto> comment,
            ''handover_token'' \<mapsto> token,
            ''contact'' \<mapsto> contact,
            ''src_uri'' \<mapsto> src_uri,
            ''tgt_uri'' \<mapsto> tgt_uri,
            ''progress_complete'' \<mapsto> progress_complete,
            ''progress_total'' \<mapsto> progress_total,
            ''report_time'' \<mapsto> JNum (report_time d)])))))))"

text \<open>
  \<^verbatim>\<open>handover_result(handover_token)\<close>: the most recent \<^verbatim>\<open>ERROR\<close> document of the token
  if there is one, else its most recent \<^verbatim>\<open>INFO\<close> document; both searches ask for
  \<^verbatim>\<open>"from": 0, "size": 1\<close>. An empty \<^verbatim>\<open>handover_detail\<close> raises
  \<^verbatim>\<open>HTTPRequestError\<close> with status 404.
\<close>

definition handover_result :: "index \<Rightarrow> str \<Rightarrow> (string \<rightharpoonup> json) list result" where
  "handover_result es handover_token =
     ebind (es_search es [term_token handover_token, term_type (lit ''ERROR'')] 0 1) (\<lambda>res_error.
     ebind (if length res_error \<noteq> 0 then for_each error_detail res_error
            else ebind (es_search es [term_token handover_token, term_type (lit ''INFO'')] 0 1)
                   (\<lambda>res. for_each info_detail res)) (\<lambda>handover_detail.
       if length handover_detail = 0
       then Inl (HTTPRequestError
                   (lit ''Handover token '' @ handover_token @ lit '' not found'') 404)
       else Inr handover_detail))"

text \<open>
  \<^verbatim>\<open>delete_handover(handover_token)\<close>: deletes every document of the token and answers
  with the token; the client's \<^verbatim>\<open>NotFoundError\<close> becomes an \<^verbatim>\<open>HTTPRequestError\<close> with
  status 404 (its message ends with the client's error text, which is left out here).
  The function returns the index after the call next to its answer.
\<close>

definition delete_handover :: "index \<Rightarrow> str \<Rightarrow> index \<times> str result" where
  "delete_handover es handover_token =
     (case es_delete_by_query es [term_token handover_token] of
        Inr es' \<Rightarrow> (es', Inr handover_token)
      | Inl NotFoundError \<Rightarrow>
          (es, Inl (HTTPRequestError
                      (lit ''Error while looking for handover token: '' @ handover_token) 404))
      | Inl e \<Rightarrow> (es, Inl e))"

text \<open>The documents of a token with a given report type, as the two searches select them.\<close>

definition events_of :: "doc list \<Rightarrow> str \<Rightarrow> str \<Rightarrow> doc list" where
  "events_of docs t ty = filter (\<lambda>d. term_token t d \<and> term_type ty d) docs"

text \<open>
  The documents of a selection that a search sorted by \<^verbatim>\<open>report_time\<close> descending
  can return first: those with the greatest \<^verbatim>\<open>report_time\<close>.
\<close>

definition latest :: "doc list \<Rightarrow> doc list" where
  "latest ds = filter (\<lambda>d. list_all (\<lambda>e. report_time e \<le> report_time d) ds) ds"

text \<open>
  The keys of \<^verbatim>\<open>params\<close> that every loop body reads; the data model of the spec
  requires them of every event record (\<^verbatim>\<open>handover_token\<close> is the fifth, and a document
  found by its token has it). The progress counters are optional there.
\<close>

definition has_keys :: "string list \<Rightarrow> doc \<Rightarrow> bool" where
  "has_keys ks d \<longleftrightarrow> list_all (\<lambda>k. params d k \<noteq> None) ks"

definition submission_keys :: "string list" where
  "submission_keys = [''comment'', ''contact'', ''src_uri'', ''tgt_uri'']"

definition progress_keys :: "string list" where
  "progress_keys = [''progress_complete'', ''progress_total'']"

text \<open>The values of one key in the entries of an answer (no entry when the call failed).\<close>

definition entry_fields :: "string \<Rightarrow> (string \<rightharpoonup> json) list result \<Rightarrow> json option list" where
  "entry_fields k res = (case res of Inl e \<Rightarrow> [] | Inr rs \<Rightarrow> map (\<lambda>r. r k) rs)"

section \<open>The release matcher: \<^verbatim>\<open>valid_handover\<close>\<close>

text \<open>
  \<^verbatim>\<open>valid_handover\<close> matches \<^verbatim>\<open>src_uri\<close> against
  \<^verbatim>\<open>^.*?_(?P<first>\d+)(_(?P<second>\d+))?(_(\d+))?$\<close> with \<^verbatim>\<open>re.match\<close>.
  Python's matcher backtracks: each part of the pattern offers its ways to match at
  the current position in order of preference, and the first combination that
  reaches the end of the pattern is the match. Each part is modelled by the list of
  its alternatives in that order, an alternative being the input left after it
  (and what it captured):
  \<^item> \<^verbatim>\<open>.*?\<close> is lazy: it takes no character first, then one more each time, and
    never a newline;
  \<^item> \<^verbatim>\<open>_\<close> takes one underscore;
  \<^item> \<^verbatim>\<open>\d+\<close> is greedy: it takes all the digits first, then one fewer each time,
    down to one;
  \<^item> \<^verbatim>\<open>(_(\d+))?\<close> is greedy: the group first, then nothing;
  \<^item> \<^verbatim>\<open>$\<close> holds at the end of the string and before a newline that ends it.
\<close>

text \<open>
  The class \<^verbatim>\<open>\d\<close> of a \<^verbatim>\<open>str\<close> pattern is the set of Unicode decimal digits, not
  only the ten ASCII ones, and \<^verbatim>\<open>int\<close> reads each such digit by its decimal value.
  Both come from the Unicode table of the Python runtime, which is not part of the
  repository: the matcher takes it as the parameter \<open>dec\<close>, the decimal value of a
  code point that is a decimal digit and \<open>None\<close> for every other code point. The
  underscore is code point 95 and the newline code point 10.
\<close>

type_synonym decimal = "nat \<Rightarrow> nat option"

definition is_digit :: "decimal \<Rightarrow> nat \<Rightarrow> bool" where
  "is_digit dec c \<longleftrightarrow> dec c \<noteq> None"

fun lazy_any :: "str \<Rightarrow> str list" where
  "lazy_any [] = [[]]"
| "lazy_any (c # s) = (c # s) # (if c = 10 then [] else lazy_any s)"

definition underscore :: "str \<Rightarrow> str list" where
  "underscore s = (case s of [] \<Rightarrow> [] | c # t \<Rightarrow> if c = 95 then [t] else [])"

fun digits1 :: "decimal \<Rightarrow> str \<Rightarrow> (str \<times> str) list" where
  "digits1 dec [] = []"
| "digits1 dec (c # s) =
     (if is_digit dec c then map (\<lambda>(d, r). (c # d, r)) (digits1 dec s) @ [([c], s)] else [])"

definition opt_segment :: "decimal \<Rightarrow> str \<Rightarrow> (str option \<times> str) list" where
  "opt_segment dec s =
     [(Some d, r). t \<leftarrow> underscore s, (d, r) \<leftarrow> digits1 dec t] @ [(None, s)]"

definition at_end :: "str \<Rightarrow> bool" where
  "at_end s \<longleftrightarrow> s = [] \<or> s = [10]"

text \<open>
  All the ways the pattern matches, in the matcher's order, each with the groups
  \<^verbatim>\<open>first\<close> and \<^verbatim>\<open>second\<close>; \<^verbatim>\<open>re.match\<close> returns the first of them, or \<^verbatim>\<open>None\<close>.
\<close>

definition all_matches :: "decimal \<Rightarrow> str \<Rightarrow> (str \<times> str option) list" where
  "all_matches dec s =
     [(first, second).
        r0 \<leftarrow> lazy_any s, r1 \<leftarrow> underscore r0, (first, r2) \<leftarrow> digits1 dec r1,
        (second, r3) \<leftarrow> opt_segment dec r2, (third, r4) \<leftarrow> opt_segment dec r3, at_end r4]"

definition re_match :: "decimal \<Rightarrow> str \<Rightarrow> (str \<times> str option) option" where
  "re_match dec s = (case all_matches dec s of [] \<Rightarrow> None | m # _ \<Rightarrow> Some m)"

text \<open>
  Python's \<^verbatim>\<open>int\<close> on a string of decimal digits, the only strings the source gives
  it; its integers are unbounded. (The limit that later interpreters put on the
  number of digits \<^verbatim>\<open>int\<close> converts is a setting of the runtime and is not modelled.)
\<close>

definition digit_val :: "decimal \<Rightarrow> nat \<Rightarrow> int" where
  "digit_val dec c = (case dec c of None \<Rightarrow> 0 | Some v \<Rightarrow> int v)"

definition py_int :: "decimal \<Rightarrow> str \<Rightarrow> int" where
  "py_int dec s = foldl (\<lambda>n c. 10 * n + digit_val dec c) 0 s"

text \<open>
  The body of \<^verbatim>\<open>valid_handover\<close> on the string \<^verbatim>\<open>src_uri\<close>. When the group
  \<^verbatim>\<open>second\<close> did not take part, \<^verbatim>\<open>match.group('second')\<close> is \<^verbatim>\<open>None\<close>,
  \<^verbatim>\<open>second == release\<close> is false and \<^verbatim>\<open>int(second)\<close> is not evaluated.
\<close>

definition matches :: "decimal \<Rightarrow> str \<Rightarrow> str \<Rightarrow> bool" where
  "matches dec src_uri release =
     (case re_match dec src_uri of
        None \<Rightarrow> False
      | Some (first, second) \<Rightarrow>
          first = release \<or>
          (case second of
             None \<Rightarrow> False
           | Some sec \<Rightarrow> sec = release \<and> py_int dec sec - py_int dec first = 53))"

text \<open>
  \<^verbatim>\<open>valid_handover(doc, release)\<close>: the lookup of \<^verbatim>\<open>src_uri\<close> raises \<^verbatim>\<open>KeyError\<close> when
  the key is missing, and \<^verbatim>\<open>re.match\<close> raises \<^verbatim>\<open>TypeError\<close> on a value that is not a
  string.
\<close>

definition valid_handover :: "decimal \<Rightarrow> doc \<Rightarrow> str \<Rightarrow> bool result" where
  "valid_handover dec d release =
     ebind (getitem (params d) ''src_uri'') (\<lambda>src_uri.
       case src_uri of JStr u \<Rightarrow> Inr (matches dec u release) | JNum n \<Rightarrow> Inl TypeError)"

text \<open>
  What the proofs need of the Unicode table: the underscore and the newline are no
  decimal digits. Both are fixed by Unicode (a connector punctuation and a control
  character).
\<close>

definition separators :: "decimal \<Rightarrow> bool" where
  "separators dec \<longleftrightarrow> dec 95 = None \<and> dec 10 = None"

subsection \<open>The pattern as the spec words it\<close>

text \<open>
  The spec describes the identifiers the pattern accepts: a trailing
  \<^verbatim>\<open>_<first>(_<second>)?(_<third>)?\<close>, each segment a number. \<open>tail_form t first second\<close>
  says that \<open>t\<close> is \<^verbatim>\<open><first>\<close>, \<^verbatim>\<open><first>_<second>\<close> or \<^verbatim>\<open><first>_<second>_<third>\<close>;
  \<open>parses_at s p first second\<close> that \<open>s\<close> is the prefix \<open>p\<close>, an underscore and such
  a tail (and possibly the final newline that \<^verbatim>\<open>$\<close> allows); the captured numbers are
  those of the parse with the shortest prefix.
\<close>

definition numeral_seg :: "decimal \<Rightarrow> str \<Rightarrow> bool" where
  "numeral_seg dec s \<longleftrightarrow> s \<noteq> [] \<and> list_all (is_digit dec) s"

definition tail_form :: "decimal \<Rightarrow> str \<Rightarrow> str \<Rightarrow> str option \<Rightarrow> bool" where
  "tail_form dec t first second \<longleftrightarrow>
     numeral_seg dec first \<and>
     (t = first \<and> second = None \<or>
      (\<exists>sec. numeral_seg dec sec \<and> second = Some sec \<and>
         (t = first @ [95] @ sec \<or>
          (\<exists>third. numeral_seg dec third \<and> t = first @ [95] @ sec @ [95] @ third))))"

definition parses_at :: "decimal \<Rightarrow> str \<Rightarrow> str \<Rightarrow> str \<Rightarrow> str option \<Rightarrow> bool" where
  "parses_at dec s p first second \<longleftrightarrow>
     10 \<notin> set p \<and>
     (\<exists>t. tail_form dec t first second \<and> (s = p @ [95] @ t \<or> s = p @ [95] @ t @ [10]))"

definition captured :: "decimal \<Rightarrow> str \<Rightarrow> str \<Rightarrow> str option \<Rightarrow> bool" where
  "captured dec s first second \<longleftrightarrow>
     (\<exists>p. parses_at dec s p first second \<and>
          (\<forall>p' first' second'. parses_at dec s p' first' second' \<longrightarrow> length p \<le> length p'))"

definition spec_matches :: "decimal \<Rightarrow> str \<Rightarrow> str \<Rightarrow> bool" where
  "spec_matches dec identifier release \<longleftrightarrow>
     (\<exists>first second. captured dec identifier first second \<and>
        (first = release \<or>
         (second = Some release \<and> py_int dec release - py_int dec first = 53)))"

subsection \<open>The first match without backtracking\<close>

text \<open>
  Auxiliary functions for the proofs: what the first alternative of the matcher is,
  computed in one pass. \<open>segment\<close> reads one \<^verbatim>\<open>_<digits>\<close> with all its digits,
  \<open>tail_first\<close> the numbers after an underscore up to the end of the string, and
  \<open>first_match\<close> tries the underscores of the string from the left.
\<close>

definition first_of :: "'a list \<Rightarrow> 'a option" where
  "first_of xs = (case xs of [] \<Rightarrow> None | x # _ \<Rightarrow> Some x)"

definition segment :: "decimal \<Rightarrow> str \<Rightarrow> (str \<times> str) option" where
  "segment dec s =
     (case s of
        [] \<Rightarrow> None
      | c # t \<Rightarrow>
          if c = 95 \<and> takeWhile (is_digit dec) t \<noteq> []
          then Some (takeWhile (is_digit dec) t, dropWhile (is_digit dec) t) else None)"

definition tail_first :: "decimal \<Rightarrow> str \<Rightarrow> (str \<times> str option) option" where
  "tail_first dec t =
     (if takeWhile (is_digit dec) t = [] then None
      else case segment dec (dropWhile (is_digit dec) t) of
             None \<Rightarrow>
               if at_end (dropWhile (is_digit dec) t)
               then Some (takeWhile (is_digit dec) t, None) else None
           | Some (sec, r3) \<Rightarrow>
               (case segment dec r3 of
                  None \<Rightarrow>
                    if at_end r3 then Some (takeWhile (is_digit dec) t, Some sec) else None
                | Some (third, r4) \<Rightarrow>
                    if at_end r4 then Some (takeWhile (is_digit dec) t, Some sec) else None))"

fun first_match :: "decimal \<Rightarrow> str \<Rightarrow> (str \<times> str option) option" where
  "first_match dec [] = None"
| "first_match dec (c # s) =
     (case (if c = 95 then tail_first dec s else None) of
        Some m \<Rightarrow> Some m
      | None \<Rightarrow> if c = 10 then None else first_match dec s)"

text \<open>
  The matches that end after an optional last segment at \<open>r3\<close>, each reporting the
  groups \<open>m\<close>: the innermost part of \<open>all_matches\<close>.
\<close>

definition finals :: "decimal \<Rightarrow> str \<times> str option \<Rightarrow> str \<Rightarrow> (str \<times> str option) list" where
  "finals dec m r3 =
     concat (map (\<lambda>(third, r4). if at_end r4 then [m] else []) (opt_segment dec r3))"

section \<open>The list of handovers of a release: \<^verbatim>\<open>handover_results\<close>\<close>

text \<open>Python's \<^verbatim>\<open>str\<close> on a JSON value: a string is itself, an integer its decimal digits.\<close>

fun dec_nat :: "nat \<Rightarrow> str" where
  "dec_nat n = (if n < 10 then [48 + n] else dec_nat (n div 10) @ [48 + n mod 10])"

declare dec_nat.simps [simp del]

definition str_json :: "json \<Rightarrow> str" where
  "str_json v =
     (case v of
        JStr s \<Rightarrow> s
      | JNum n \<Rightarrow> if n < 0 then lit ''-'' @ dec_nat (nat (- n)) else dec_nat (nat n))"

text \<open>
  The two inner searches of the loop body: the message of the token's most recent
  \<^verbatim>\<open>ERROR\<close> document, else of its most recent \<^verbatim>\<open>INFO\<close> document, is stored under
  \<^verbatim>\<open>current_message\<close>; with neither, the key is not set.
\<close>

definition current_message :: "index \<Rightarrow> str \<Rightarrow> (string \<rightharpoonup> json) \<Rightarrow> (string \<rightharpoonup> json) result" where
  "current_message es token result =
     ebind (es_search es [term_token token, term_type (lit ''ERROR'')] 0 1) (\<lambda>res_error.
       if length res_error \<noteq> 0
       then Inr (foldl (\<lambda>r doc_error. r(''current_message'' \<mapsto> JStr (message doc_error)))
                   result res_error)
       else ebind (es_search es [term_token token, term_type (lit ''INFO'')] 0 1) (\<lambda>res2.
              Inr (foldl (\<lambda>r doc2. r(''current_message'' \<mapsto> JStr (message doc2)))
                     result res2)))"

definition handover_entry :: "index \<Rightarrow> doc \<Rightarrow> (string \<rightharpoonup> json) result" where
  "handover_entry es d =
     ebind (getitem (params d) ''comment'') (\<lambda>comment.
     ebind (getitem (params d) ''handover_token'') (\<lambda>token.
     ebind (current_message es (str_json token)
              [''id'' \<mapsto> JStr (doc_id d),
               ''message'' \<mapsto> JStr (message d),
               ''comment'' \<mapsto> comment,
               ''handover_token'' \<mapsto> token]) (\<lambda>result.
     ebind (getitem (params d) ''contact'') (\<lambda>contact.
     ebind (getitem (params d) ''src_uri'') (\<lambda>src_uri.
     ebind (getitem (params d) ''tgt_uri'') (\<lambda>tgt_uri.
       Inr (result(''contact'' \<mapsto> contact,
                   ''src_uri'' \<mapsto> src_uri,
                   ''tgt_uri'' \<mapsto> tgt_uri,
                   ''report_time'' \<mapsto> JNum (report_time d)))))))))"

text \<open>The loop over the hits: an entry for each document that \<^verbatim>\<open>valid_handover\<close> accepts.\<close>

fun list_handovers ::
    "decimal \<Rightarrow> index \<Rightarrow> str \<Rightarrow> doc list \<Rightarrow> (string \<rightharpoonup> json) list result" where
  "list_handovers dec es release [] = Inr []"
| "list_handovers dec es release (d # ds) =
     ebind (valid_handover dec d release) (\<lambda>valid.
       if valid
       then ebind (handover_entry es d) (\<lambda>result.
            ebind (list_handovers dec es release ds) (\<lambda>rest. Inr (result # rest)))
       else list_handovers dec es release ds)"

text \<open>
  \<^verbatim>\<open>handover_results()\<close> for the request parameter \<^verbatim>\<open>release\<close>. Its first search has
  two \<^verbatim>\<open>query_string\<close> clauses, a wildcard on \<^verbatim>\<open>message\<close> and a regular expression
  on \<^verbatim>\<open>params.tgt_uri\<close> built from \<^verbatim>\<open>release\<close>, and asks for 1000 hits. How the store
  evaluates these clauses on its analysed text fields is not in the repository: the
  function takes it as the parameter \<open>query_string\<close>, a predicate on documents for
  each release.
\<close>

definition candidates :: "(str \<Rightarrow> doc \<Rightarrow> bool) \<Rightarrow> doc list \<Rightarrow> str \<Rightarrow> doc list" where
  "candidates query_string docs release =
     take 1000 (sort_key (\<lambda>d. - report_time d) (filter (query_string release) docs))"

definition handover_results ::
    "decimal \<Rightarrow> (str \<Rightarrow> doc \<Rightarrow> bool) \<Rightarrow> index \<Rightarrow> str \<Rightarrow> (string \<rightharpoonup> json) list result" where
  "handover_results dec query_string es release =
     ebind (es_search es [query_string release] 0 1000) (\<lambda>res.
       list_handovers dec es release res)"

text \<open>The documents of a list of hits for which \<^verbatim>\<open>valid_handover\<close> returns \<^verbatim>\<open>True\<close>.\<close>

definition accepted :: "decimal \<Rightarrow> str \<Rightarrow> doc \<Rightarrow> bool" where
  "accepted dec release d \<longleftrightarrow> valid_handover dec d release = Inr True"

text \<open>
  A document on which the loop body raises nothing: it has the keys the body reads,
  and its \<^verbatim>\<open>src_uri\<close> is a string.
\<close>

definition submission_doc :: "doc \<Rightarrow> bool" where
  "submission_doc d \<longleftrightarrow>
     has_keys (''handover_token'' # submission_keys) d \<and>
     (case params d ''src_uri'' of Some (JStr u) \<Rightarrow> True | _ \<Rightarrow> False)"

text \<open>
  Modelled from the spec: the store's reading of the two \<^verbatim>\<open>query_string\<close> clauses,
  which the spec gives as events "whose message indicates an initial submission
  (Handling marker) and whose \<^verbatim>\<open>params.tgt_uri\<close> textually contains an
  underscore-delimited generation segment". It is used for the concrete examples
  only; the general results hold for every \<open>query_string\<close>.
\<close>

definition submission_query :: "str \<Rightarrow> doc \<Rightarrow> bool" where
  "submission_query release d \<longleftrightarrow>
     prefix (lit ''Handling'') (message d) \<and>
     (case params d ''tgt_uri'' of
        Some (JStr tgt) \<Rightarrow> sublist (lit ''_'' @ release) tgt
      | _ \<Rightarrow> False)"

section \<open>Example documents\<close>

text \<open>
  Documents in the shape of the ones in the endpoints' documentation: a submission
  (\<^verbatim>\<open>Handling ...\<close>), a progress report with both counters, the final report of the
  documented answer of \<^verbatim>\<open>handover_result\<close> (which has \<^verbatim>\<open>progress_total\<close> and no
  \<^verbatim>\<open>progress_complete\<close>) and an error report. Their identifiers, tokens and
  databases are ASCII literals.
\<close>

definition ex_params :: "string \<Rightarrow> string \<Rightarrow> (string \<rightharpoonup> json)" where
  "ex_params token uri =
     [''comment'' \<mapsto> JStr (lit ''new db''),
      ''handover_token'' \<mapsto> JStr (lit token),
      ''contact'' \<mapsto> JStr (lit ''a@ebi''),
      ''src_uri'' \<mapsto> JStr (lit uri),
      ''tgt_uri'' \<mapsto> JStr (lit uri)]"

definition ex_submit :: "string \<Rightarrow> string \<Rightarrow> string \<Rightarrow> int \<Rightarrow> doc" where
  "ex_submit ident token uri time =
     \<lparr>doc_id = lit ident, report_type = lit ''INFO'', report_time = time,
      message = lit ''Handling db'', params = ex_params token uri\<rparr>"

definition ex_progress :: "string \<Rightarrow> string \<Rightarrow> int \<Rightarrow> doc" where
  "ex_progress ident token time =
     \<lparr>doc_id = lit ident, report_type = lit ''INFO'', report_time = time,
      message = lit ''Copying'',
      params = (ex_params token ''db_core_93_1'')
                 (''progress_complete'' \<mapsto> JNum 1, ''progress_total'' \<mapsto> JNum 3)\<rparr>"

definition ex_final :: "string \<Rightarrow> string \<Rightarrow> int \<Rightarrow> doc" where
  "ex_final ident token time =
     \<lparr>doc_id = lit ident, report_type = lit ''INFO'', report_time = time,
      message = lit ''Handover successful'',
      params = (ex_params token ''db_core_93_1'')(''progress_total'' \<mapsto> JNum 3)\<rparr>"

definition ex_error :: "string \<Rightarrow> string \<Rightarrow> int \<Rightarrow> doc" where
  "ex_error ident token time =
     \<lparr>doc_id = lit ident, report_type = lit ''ERROR'', report_time = time,
      message = lit ''Copy failed'', params = ex_params token ''db_core_93_1''\<rparr>"

text \<open>A submission whose target differs from its source.\<close>

definition ex_moved :: "string \<Rightarrow> string \<Rightarrow> string \<Rightarrow> string \<Rightarrow> int \<Rightarrow> doc" where
  "ex_moved ident token src tgt time =
     \<lparr>doc_id = lit ident, report_type = lit ''INFO'', report_time = time,
      message = lit ''Handling db'',
      params = (ex_params token src)(''tgt_uri'' \<mapsto> JStr (lit tgt))\<rparr>"

text \<open>
  Two rows of the Unicode table for the examples: the ASCII digits (code points 48
  to 57) and the Arabic-Indic digits (U+0660 to U+0669). The examples contain no
  other digit, so a longer table gives them the same answers.
\<close>

definition ex_decimal :: decimal where
  "ex_decimal c =
     (if 48 \<le> c \<and> c \<le> 57 then Some (c - 48)
      else if 1632 \<le> c \<and> c \<le> 1641 then Some (c - 1632)
      else None)"

section \<open>Properties of \<^verbatim>\<open>handover_result\<close>\<close>

lemmas ex_defs = ex_params_def ex_submit_def ex_progress_def ex_final_def ex_error_def
  ex_moved_def lit_def

lemmas run_defs = handover_result_def es_search_def term_token_def term_type_def ebind_def
  getitem_def error_detail_def info_detail_def entry_fields_def events_of_def has_keys_def
  submission_keys_def progress_keys_def

lemma search_events_of:
  "es_search (Some docs) [term_token t, term_type ty] 0 1 =
     Inr (take 1 (sort_key (\<lambda>d. - report_time d) (events_of docs t ty)))"
  by (simp add: es_search_def events_of_def)

lemma for_each_length: "for_each body xs = Inr ys \<Longrightarrow> length ys = length xs"
  by (induction xs arbitrary: ys) (auto split: sum.splits)

lemma events_of_token: "d \<in> set (events_of docs t ty) \<Longrightarrow> term_token t d"
  by (simp add: events_of_def)

text \<open>
  The one hit of a search with \<^verbatim>\<open>"size": 1\<close>: a document of the selection, and none of
  the selection has a smaller sort key.
\<close>

lemma top_hit:
  assumes "xs \<noteq> []"
  shows "\<exists>d. take 1 (sort_key f xs) = [d] \<and> d \<in> set xs \<and> (\<forall>e\<in>set xs. f d \<le> f e)"
proof -
  from assms have "sort_key f xs \<noteq> []" by (metis length_0_conv length_sort)
  then obtain d rest where s: "sort_key f xs = d # rest" by (cases "sort_key f xs") auto
  have "sorted (map f (d # rest))" using sorted_sort_key [of f xs] s by simp
  then have le: "\<forall>e\<in>set (d # rest). f d \<le> f e" by auto
  have "set (d # rest) = set xs" using set_sort [of f xs] s by simp
  with le s show ?thesis by auto
qed

lemma error_detail_ok:
  assumes "has_keys submission_keys d" and "term_token t d"
  shows "\<exists>r. error_detail d = Inr r \<and> r ''message'' = Some (JStr (message d)) \<and>
           r ''id'' = Some (JStr (doc_id d)) \<and>
           dom r = set [''id'', ''message'', ''comment'', ''handover_token'', ''contact'',
                        ''src_uri'', ''tgt_uri'', ''report_time'']"
  using assms
  by (auto simp: has_keys_def submission_keys_def term_token_def error_detail_def
        getitem_def ebind_def)

lemma info_detail_ok:
  assumes "has_keys (submission_keys @ progress_keys) d" and "term_token t d"
  shows "\<exists>r. info_detail d = Inr r \<and> r ''message'' = Some (JStr (message d)) \<and>
           r ''id'' = Some (JStr (doc_id d)) \<and>
           r ''progress_complete'' = params d ''progress_complete'' \<and>
           r ''progress_total'' = params d ''progress_total'' \<and>
           dom r = set [''id'', ''message'', ''comment'', ''handover_token'', ''contact'',
                        ''src_uri'', ''tgt_uri'', ''progress_complete'', ''progress_total'',
                        ''report_time'']"
  using assms
  by (auto simp: has_keys_def submission_keys_def progress_keys_def term_token_def
        info_detail_def getitem_def ebind_def)

subsection \<open>A token with an error report\<close>

text \<open>
  C1 as the spec states it asks for a status \<^verbatim>\<open>failed\<close> in the answer. The answer of
  \<^verbatim>\<open>handover_result\<close> has no status at all: for a token with a progress report and a
  later error report, it is one entry without the key \<^verbatim>\<open>status\<close>.
\<close>

theorem handover_result_status_counterexample:
  "entry_fields ''status''
     (handover_result (Some [ex_progress ''p1'' ''T1'' 4, ex_error ''e1'' ''T1'' 5]) (lit ''T1'')) = [None]"
  by (simp add: ex_defs run_defs)

text \<open>
  C1, amended. For a token with at least one \<^verbatim>\<open>ERROR\<close> document (each carrying the
  keys the data model requires), \<^verbatim>\<open>handover_result\<close> returns one entry; its
  \<^verbatim>\<open>message\<close> is the message of an \<^verbatim>\<open>ERROR\<close> document of the token with the greatest
  \<^verbatim>\<open>report_time\<close>, whatever \<^verbatim>\<open>INFO\<close> documents the index holds; the keys of the entry
  are the eight listed, so it has neither progress counters nor a status.
\<close>

theorem handover_result_error:
  assumes "events_of docs t (lit ''ERROR'') \<noteq> []"
      and "list_all (has_keys submission_keys) (events_of docs t (lit ''ERROR''))"
  shows "\<exists>e r. e \<in> set (events_of docs t (lit ''ERROR'')) \<and>
           (\<forall>e'\<in>set (events_of docs t (lit ''ERROR'')). report_time e' \<le> report_time e) \<and>
           handover_result (Some docs) t = Inr [r] \<and>
           r ''message'' = Some (JStr (message e)) \<and>
           dom r = set [''id'', ''message'', ''comment'', ''handover_token'', ''contact'',
                        ''src_uri'', ''tgt_uri'', ''report_time'']"
proof -
  let ?E = "events_of docs t (lit ''ERROR'')"
  from top_hit [OF assms(1), of "\<lambda>d. - report_time d"]
  obtain e where hit: "take 1 (sort_key (\<lambda>d. - report_time d) ?E) = [e]"
    and mem: "e \<in> set ?E" and top: "\<forall>e'\<in>set ?E. report_time e' \<le> report_time e"
    by auto
  from mem assms(2) have "has_keys submission_keys e" by (simp add: list_all_iff)
  from error_detail_ok [OF this events_of_token [OF mem]]
  obtain r where r: "error_detail e = Inr r" "r ''message'' = Some (JStr (message e))"
    "dom r = set [''id'', ''message'', ''comment'', ''handover_token'', ''contact'',
                  ''src_uri'', ''tgt_uri'', ''report_time'']"
    by blast
  have "handover_result (Some docs) t = Inr [r]"
    unfolding handover_result_def search_events_of hit
    by (simp add: ebind_def r(1))
  with mem top r show ?thesis by blast
qed

theorem handover_result_error_witness:
  "events_of [ex_error ''e1'' ''T1'' 5, ex_progress ''p1'' ''T1'' 7, ex_error ''e2'' ''T1'' 6]
     (lit ''T1'') (lit ''ERROR'') \<noteq> [] \<and>
   list_all (has_keys submission_keys)
     (events_of [ex_error ''e1'' ''T1'' 5, ex_progress ''p1'' ''T1'' 7, ex_error ''e2'' ''T1'' 6]
        (lit ''T1'') (lit ''ERROR'')) \<and>
   (\<exists>e r. e \<in> set (events_of
               [ex_error ''e1'' ''T1'' 5, ex_progress ''p1'' ''T1'' 7, ex_error ''e2'' ''T1'' 6]
               (lit ''T1'') (lit ''ERROR'')) \<and>
      (\<forall>e'\<in>set (events_of
               [ex_error ''e1'' ''T1'' 5, ex_progress ''p1'' ''T1'' 7, ex_error ''e2'' ''T1'' 6]
               (lit ''T1'') (lit ''ERROR'')). report_time e' \<le> report_time e) \<and>
      handover_result
        (Some [ex_error ''e1'' ''T1'' 5, ex_progress ''p1'' ''T1'' 7, ex_error ''e2'' ''T1'' 6])
        (lit ''T1'') = Inr [r] \<and>
      r ''message'' = Some (JStr (message e)) \<and>
      dom r = set [''id'', ''message'', ''comment'', ''handover_token'', ''contact'',
                   ''src_uri'', ''tgt_uri'', ''report_time''])"
proof -
  let ?docs = "[ex_error ''e1'' ''T1'' 5, ex_progress ''p1'' ''T1'' 7, ex_error ''e2'' ''T1'' 6]"
  have h1: "events_of ?docs (lit ''T1'') (lit ''ERROR'') \<noteq> []"
    by (simp add: ex_defs events_of_def term_token_def term_type_def)
  have h2: "list_all (has_keys submission_keys) (events_of ?docs (lit ''T1'') (lit ''ERROR''))"
    by (simp add: ex_defs events_of_def term_token_def term_type_def has_keys_def
          submission_keys_def)
  show ?thesis using handover_result_error [OF h1 h2] h1 h2 by blast
qed

subsection \<open>A token with progress reports only\<close>

text \<open>
  C2 as the spec states it asks for a status \<^verbatim>\<open>running\<close> while
  \<^verbatim>\<open>progress_complete < progress_total\<close>. The code never compares the counters: for
  a token whose latest report has 1 of 3 steps complete, the answer is one entry
  without the key \<^verbatim>\<open>status\<close>.
\<close>

theorem handover_result_running_counterexample:
  "entry_fields ''status''
     (handover_result (Some [ex_submit ''s1'' ''T1'' ''db_core_93_1'' 3, ex_progress ''p1'' ''T1'' 4])
        (lit ''T1'')) = [None]"
  by (simp add: ex_defs run_defs)

text \<open>
  C2, amended. For a token with no \<^verbatim>\<open>ERROR\<close> document and at least one \<^verbatim>\<open>INFO\<close>
  document, whose \<^verbatim>\<open>INFO\<close> documents of greatest \<^verbatim>\<open>report_time\<close> carry the required
  keys and both progress counters (the earlier ones may lack them),
  \<^verbatim>\<open>handover_result\<close> returns one entry; its \<^verbatim>\<open>message\<close> is the message of an \<^verbatim>\<open>INFO\<close>
  document of the token with the greatest \<^verbatim>\<open>report_time\<close>, the two counters are
  copied from that document, and the entry has no status.
\<close>

theorem handover_result_info:
  assumes "events_of docs t (lit ''ERROR'') = []"
      and "events_of docs t (lit ''INFO'') \<noteq> []"
      and "list_all (has_keys (submission_keys @ progress_keys))
             (latest (events_of docs t (lit ''INFO'')))"
  shows "\<exists>e r. e \<in> set (events_of docs t (lit ''INFO'')) \<and>
           (\<forall>e'\<in>set (events_of docs t (lit ''INFO'')). report_time e' \<le> report_time e) \<and>
           handover_result (Some docs) t = Inr [r] \<and>
           r ''message'' = Some (JStr (message e)) \<and>
           r ''progress_complete'' = params e ''progress_complete'' \<and>
           r ''progress_total'' = params e ''progress_total'' \<and>
           r ''status'' = None"
proof -
  let ?I = "events_of docs t (lit ''INFO'')"
  from top_hit [OF assms(2), of "\<lambda>d. - report_time d"]
  obtain e where hit: "take 1 (sort_key (\<lambda>d. - report_time d) ?I) = [e]"
    and mem: "e \<in> set ?I" and top: "\<forall>e'\<in>set ?I. report_time e' \<le> report_time e"
    by auto
  from mem top have "e \<in> set (latest ?I)" by (simp add: latest_def list_all_iff)
  with assms(3) have "has_keys (submission_keys @ progress_keys) e"
    by (simp add: list_all_iff)
  from info_detail_ok [OF this events_of_token [OF mem]]
  obtain r where r: "info_detail e = Inr r" "r ''message'' = Some (JStr (message e))"
    "r ''progress_complete'' = params e ''progress_complete''"
    "r ''progress_total'' = params e ''progress_total''"
    "dom r = set [''id'', ''message'', ''comment'', ''handover_token'', ''contact'',
                  ''src_uri'', ''tgt_uri'', ''progress_complete'', ''progress_total'',
                  ''report_time'']"
    by blast
  from r(5) have "''status'' \<notin> dom r" by simp
  then have ns: "r ''status'' = None" by blast
  have "handover_result (Some docs) t = Inr [r]"
    unfolding handover_result_def search_events_of hit assms(1)
    by (simp add: ebind_def r(1))
  with mem top r ns show ?thesis by blast
qed

text \<open>
  The example is the index of the counterexample above: the submission has no
  counters, the later progress report has both.
\<close>

theorem handover_result_info_witness:
  "events_of [ex_submit ''s1'' ''T1'' ''db_core_93_1'' 3, ex_progress ''p1'' ''T1'' 4]
     (lit ''T1'') (lit ''ERROR'') = [] \<and>
   events_of [ex_submit ''s1'' ''T1'' ''db_core_93_1'' 3, ex_progress ''p1'' ''T1'' 4]
     (lit ''T1'') (lit ''INFO'') \<noteq> [] \<and>
   list_all (has_keys (submission_keys @ progress_keys))
     (latest (events_of [ex_submit ''s1'' ''T1'' ''db_core_93_1'' 3, ex_progress ''p1'' ''T1'' 4]
                (lit ''T1'') (lit ''INFO''))) \<and>
   \<not> list_all (has_keys (submission_keys @ progress_keys))
     (events_of [ex_submit ''s1'' ''T1'' ''db_core_93_1'' 3, ex_progress ''p1'' ''T1'' 4]
        (lit ''T1'') (lit ''INFO'')) \<and>
   (\<exists>e r. e \<in> set (events_of
               [ex_submit ''s1'' ''T1'' ''db_core_93_1'' 3, ex_progress ''p1'' ''T1'' 4]
               (lit ''T1'') (lit ''INFO'')) \<and>
      (\<forall>e'\<in>set (events_of
               [ex_submit ''s1'' ''T1'' ''db_core_93_1'' 3, ex_progress ''p1'' ''T1'' 4]
               (lit ''T1'') (lit ''INFO'')). report_time e' \<le> report_time e) \<and>
      handover_result
        (Some [ex_submit ''s1'' ''T1'' ''db_core_93_1'' 3, ex_progress ''p1'' ''T1'' 4])
        (lit ''T1'') = Inr [r] \<and>
      r ''message'' = Some (JStr (message e)) \<and>
      r ''progress_complete'' = params e ''progress_complete'' \<and>
      r ''progress_total'' = params e ''progress_total'' \<and>
      r ''status'' = None)"
proof -
  let ?docs = "[ex_submit ''s1'' ''T1'' ''db_core_93_1'' 3, ex_progress ''p1'' ''T1'' 4]"
  have h1: "events_of ?docs (lit ''T1'') (lit ''ERROR'') = []"
    by (simp add: ex_defs events_of_def term_token_def term_type_def)
  have h2: "events_of ?docs (lit ''T1'') (lit ''INFO'') \<noteq> []"
    by (simp add: ex_defs events_of_def term_token_def term_type_def)
  have h3: "list_all (has_keys (submission_keys @ progress_keys))
              (latest (events_of ?docs (lit ''T1'') (lit ''INFO'')))"
    by (simp add: ex_defs events_of_def term_token_def term_type_def has_keys_def
          submission_keys_def progress_keys_def latest_def)
  have h4: "\<not> list_all (has_keys (submission_keys @ progress_keys))
              (events_of ?docs (lit ''T1'') (lit ''INFO''))"
    by (simp add: ex_defs events_of_def term_token_def term_type_def has_keys_def
          submission_keys_def progress_keys_def)
  show ?thesis using handover_result_info [OF h1 h2 h3] h1 h2 h3 h4 by blast
qed

text \<open>
  C7. The spec lets the progress counters be absent and asks that they then be left
  out of the answer. The code reads both unconditionally: on the final report of the
  endpoint's own documented answer, which has \<^verbatim>\<open>progress_total\<close> and no
  \<^verbatim>\<open>progress_complete\<close>, the call ends with \<^verbatim>\<open>KeyError\<close>.
\<close>

theorem handover_result_missing_progress:
  "handover_result (Some [ex_final ''f1'' ''T1'' 8]) (lit ''T1'') = Inl (KeyError ''progress_complete'')"
  by (simp add: ex_defs run_defs)

subsection \<open>Unknown tokens and the size of the answer\<close>

text \<open>
  C4. A token of which the index holds neither an \<^verbatim>\<open>ERROR\<close> nor an \<^verbatim>\<open>INFO\<close> document:
  \<^verbatim>\<open>handover_result\<close> raises \<^verbatim>\<open>HTTPRequestError\<close> with status 404 (not found); it does
  not return an empty list.
\<close>

theorem handover_result_not_found:
  assumes "events_of docs t (lit ''ERROR'') = []" and "events_of docs t (lit ''INFO'') = []"
  shows "handover_result (Some docs) t =
           Inl (HTTPRequestError (lit ''Handover token '' @ t @ lit '' not found'') 404)"
  unfolding handover_result_def search_events_of using assms by (simp add: ebind_def)

theorem handover_result_not_found_witness:
  "events_of [ex_error ''e1'' ''T1'' 5] (lit ''T2'') (lit ''ERROR'') = [] \<and>
   events_of [ex_error ''e1'' ''T1'' 5] (lit ''T2'') (lit ''INFO'') = [] \<and>
   handover_result (Some [ex_error ''e1'' ''T1'' 5]) (lit ''T2'') =
     Inl (HTTPRequestError (lit ''Handover token T2 not found'') 404)"
proof -
  have h1: "events_of [ex_error ''e1'' ''T1'' 5] (lit ''T2'') (lit ''ERROR'') = []"
    by (simp add: ex_defs events_of_def term_token_def)
  have h2: "events_of [ex_error ''e1'' ''T1'' 5] (lit ''T2'') (lit ''INFO'') = []"
    by (simp add: ex_defs events_of_def term_token_def)
  show ?thesis using handover_result_not_found [OF h1 h2] h1 h2 by (simp add: lit_def)
qed

text \<open>
  C10. Whenever \<^verbatim>\<open>handover_result\<close> returns, its answer has exactly one entry: each of
  the two searches yields at most one hit, and an empty answer is the 404 error.
\<close>

theorem handover_result_single:
  assumes "handover_result es t = Inr rs"
  shows "length rs = 1"
proof (cases es)
  case None
  with assms show ?thesis by (simp add: handover_result_def es_search_def ebind_def)
next
  case (Some docs)
  let ?E = "take 1 (sort_key (\<lambda>d. - report_time d) (events_of docs t (lit ''ERROR'')))"
  let ?I = "take 1 (sort_key (\<lambda>d. - report_time d) (events_of docs t (lit ''INFO'')))"
  from assms Some have "handover_result (Some docs) t = Inr rs" by simp
  then have
    "(?E \<noteq> [] \<and> for_each error_detail ?E = Inr rs) \<or> (for_each info_detail ?I = Inr rs)"
    and ne: "rs \<noteq> []"
    unfolding handover_result_def search_events_of
    by (auto simp: ebind_def split: sum.splits if_splits)
  then have "length rs = length ?E \<or> length rs = length ?I"
    by (auto dest: for_each_length)
  moreover have "length ?E \<le> 1" "length ?I \<le> 1" by simp_all
  moreover from ne have "length rs \<noteq> 0" by simp
  ultimately show ?thesis by linarith
qed

theorem handover_result_single_witness:
  "handover_result (Some [ex_progress ''p1'' ''T1'' 4, ex_error ''e1'' ''T1'' 5, ex_error ''e2'' ''T1'' 2])
     (lit ''T1'') =
     Inr [[''id'' \<mapsto> JStr (lit ''e1''), ''message'' \<mapsto> JStr (lit ''Copy failed''),
           ''comment'' \<mapsto> JStr (lit ''new db''), ''handover_token'' \<mapsto> JStr (lit ''T1''),
           ''contact'' \<mapsto> JStr (lit ''a@ebi''), ''src_uri'' \<mapsto> JStr (lit ''db_core_93_1''),
           ''tgt_uri'' \<mapsto> JStr (lit ''db_core_93_1''), ''report_time'' \<mapsto> JNum 5]] \<and>
   length [[''id'' \<mapsto> JStr (lit ''e1''), ''message'' \<mapsto> JStr (lit ''Copy failed''),
           ''comment'' \<mapsto> JStr (lit ''new db''), ''handover_token'' \<mapsto> JStr (lit ''T1''),
           ''contact'' \<mapsto> JStr (lit ''a@ebi''), ''src_uri'' \<mapsto> JStr (lit ''db_core_93_1''),
           ''tgt_uri'' \<mapsto> JStr (lit ''db_core_93_1''), ''report_time'' \<mapsto> JNum 5]] = 1"
proof -
  have h: "handover_result
             (Some [ex_progress ''p1'' ''T1'' 4, ex_error ''e1'' ''T1'' 5, ex_error ''e2'' ''T1'' 2])
             (lit ''T1'') =
           Inr [[''id'' \<mapsto> JStr (lit ''e1''), ''message'' \<mapsto> JStr (lit ''Copy failed''),
                 ''comment'' \<mapsto> JStr (lit ''new db''), ''handover_token'' \<mapsto> JStr (lit ''T1''),
                 ''contact'' \<mapsto> JStr (lit ''a@ebi''), ''src_uri'' \<mapsto> JStr (lit ''db_core_93_1''),
                 ''tgt_uri'' \<mapsto> JStr (lit ''db_core_93_1''), ''report_time'' \<mapsto> JNum 5]]"
    by (simp add: ex_defs run_defs)
  show ?thesis using handover_result_single [OF h] h by simp
qed

text \<open>
  C8. After \<^verbatim>\<open>delete_handover\<close> has deleted the documents of a token from an
  existing index, \<^verbatim>\<open>handover_result\<close> for that token raises the 404 error.
\<close>

theorem delete_then_not_found:
  "handover_result (fst (delete_handover (Some docs) t)) t =
     Inl (HTTPRequestError (lit ''Handover token '' @ t @ lit '' not found'') 404)"
proof -
  let ?docs' = "filter (\<lambda>d. \<not> term_token t d) docs"
  have d: "delete_handover (Some docs) t = (Some ?docs', Inr t)"
    by (simp add: delete_handover_def es_delete_by_query_def)
  have "events_of ?docs' t ty = []" for ty
    by (simp add: events_of_def filter_empty_conv)
  then show ?thesis
    unfolding d fst_conv handover_result_def search_events_of by (simp add: ebind_def)
qed

theorem delete_then_not_found_witness:
  "handover_result (Some [ex_progress ''p1'' ''T1'' 3]) (lit ''T1'') \<noteq>
     Inl (HTTPRequestError (lit ''Handover token T1 not found'') 404) \<and>
   handover_result (fst (delete_handover (Some [ex_progress ''p1'' ''T1'' 3]) (lit ''T1'')))
     (lit ''T1'') = Inl (HTTPRequestError (lit ''Handover token T1 not found'') 404)"
proof -
  have h: "handover_result (Some [ex_progress ''p1'' ''T1'' 3]) (lit ''T1'') \<noteq>
     Inl (HTTPRequestError (lit ''Handover token T1 not found'') 404)"
    by (simp add: ex_defs run_defs)
  show ?thesis
    using delete_then_not_found [of "[ex_progress ''p1'' ''T1'' 3]" "lit ''T1''"] h
    by (simp add: lit_def)
qed

section \<open>Properties of \<^verbatim>\<open>handover_results\<close>\<close>

lemmas match_defs = matches_def re_match_def all_matches_def opt_segment_def underscore_def
  at_end_def is_digit_def py_int_def digit_val_def ex_decimal_def lit_def

lemmas list_defs = handover_results_def es_search_def term_token_def term_type_def ebind_def
  getitem_def entry_fields_def valid_handover_def handover_entry_def current_message_def
  submission_query_def sublist_code accepted_def candidates_def

lemma current_message_keeps:
  assumes "current_message es token result = Inr r" and "k \<noteq> ''current_message''"
  shows "r k = result k"
proof -
  have keep: "foldl (\<lambda>r d. r(''current_message'' \<mapsto> JStr (message d))) m ds k = m k"
    for m :: "string \<rightharpoonup> json" and ds :: "doc list"
    using assms(2) by (induction ds arbitrary: m) auto
  from assms(1) show ?thesis
    by (auto simp: current_message_def ebind_def keep split: sum.splits if_splits)
qed

lemma handover_entry_fields:
  assumes "handover_entry es d = Inr r"
  shows "r ''id'' = Some (JStr (doc_id d))"
    and "r ''handover_token'' = params d ''handover_token''"
    and "r ''src_uri'' = params d ''src_uri''"
proof -
  from assms obtain comment token result contact src_uri tgt_uri where
    g: "params d ''comment'' = Some comment" "params d ''handover_token'' = Some token"
       "params d ''src_uri'' = Some src_uri"
    and cm: "current_message es (str_json token)
               [''id'' \<mapsto> JStr (doc_id d), ''message'' \<mapsto> JStr (message d),
                ''comment'' \<mapsto> comment, ''handover_token'' \<mapsto> token] = Inr result"
    and r: "r = result(''contact'' \<mapsto> contact, ''src_uri'' \<mapsto> src_uri,
                       ''tgt_uri'' \<mapsto> tgt_uri, ''report_time'' \<mapsto> JNum (report_time d))"
    by (auto simp: handover_entry_def ebind_def getitem_def split: option.splits sum.splits)
  have "result ''id'' = Some (JStr (doc_id d))"
    using current_message_keeps [OF cm, of "''id''"] by simp
  moreover have "result ''handover_token'' = Some token"
    using current_message_keeps [OF cm, of "''handover_token''"] by simp
  ultimately show "r ''id'' = Some (JStr (doc_id d))"
    and "r ''handover_token'' = params d ''handover_token''"
    and "r ''src_uri'' = params d ''src_uri''"
    using r g by simp_all
qed

lemma accepted_src_uri:
  "accepted dec release d \<Longrightarrow> \<exists>u. params d ''src_uri'' = Some (JStr u) \<and> matches dec u release"
  by (auto simp: accepted_def valid_handover_def ebind_def getitem_def
      split: option.splits json.splits)

lemma list_handovers_entries:
  assumes "list_handovers dec es release ds = Inr rs"
  shows "list_all2 (\<lambda>r d. r ''id'' = Some (JStr (doc_id d)) \<and>
                          r ''handover_token'' = params d ''handover_token'' \<and>
                          r ''src_uri'' = params d ''src_uri'')
           rs (filter (accepted dec release) ds)"
  using assms
proof (induction ds arbitrary: rs)
  case Nil
  then show ?case by simp
next
  case (Cons d ds)
  show ?case
  proof (cases "accepted dec release d")
    case True
    with Cons.prems obtain r rest where
      e: "handover_entry es d = Inr r" and l: "list_handovers dec es release ds = Inr rest"
      and rs: "rs = r # rest"
      by (auto simp: accepted_def ebind_def split: sum.splits)
    from handover_entry_fields [OF e] Cons.IH [OF l] True rs show ?thesis by simp
  next
    case False
    with Cons.prems have "list_handovers dec es release ds = Inr rs"
      by (auto simp: accepted_def ebind_def split: sum.splits if_splits)
    from Cons.IH [OF this] False show ?thesis by simp
  qed
qed

lemma list_all2_left_member:
  "list_all2 P xs ys \<Longrightarrow> x \<in> set xs \<Longrightarrow> \<exists>y\<in>set ys. P x y"
  by (induction rule: list_all2_induct) auto

lemma handover_results_hits:
  "handover_results dec q (Some docs) release =
     list_handovers dec (Some docs) release (candidates q docs release)"
  by (simp add: handover_results_def es_search_def candidates_def ebind_def)

text \<open>
  On an existing index whose documents have the keys the loop reads,
  \<^verbatim>\<open>handover_results\<close> returns a list: the results below are about answers that exist.
\<close>

lemma current_message_returns: "\<exists>r. current_message (Some docs) token result = Inr r"
  by (simp add: current_message_def es_search_def ebind_def)

lemma handover_entry_returns:
  assumes "submission_doc d"
  shows "\<exists>r. handover_entry (Some docs) d = Inr r"
proof -
  from assms obtain comment token contact src_uri tgt_uri where
    g: "params d ''comment'' = Some comment" "params d ''handover_token'' = Some token"
       "params d ''contact'' = Some contact" "params d ''src_uri'' = Some src_uri"
       "params d ''tgt_uri'' = Some tgt_uri"
    by (auto simp: submission_doc_def has_keys_def submission_keys_def)
  from current_message_returns obtain result where
    "current_message (Some docs) (str_json token)
       [''id'' \<mapsto> JStr (doc_id d), ''message'' \<mapsto> JStr (message d),
        ''comment'' \<mapsto> comment, ''handover_token'' \<mapsto> token] = Inr result"
    by blast
  with g show ?thesis by (simp add: handover_entry_def ebind_def getitem_def)
qed

lemma valid_handover_returns:
  "submission_doc d \<Longrightarrow> \<exists>b. valid_handover dec d release = Inr b"
  by (auto simp: submission_doc_def valid_handover_def ebind_def getitem_def
      split: option.splits json.splits)

lemma list_handovers_returns:
  "list_all submission_doc ds \<Longrightarrow> \<exists>rs. list_handovers dec (Some docs) release ds = Inr rs"
proof (induction ds)
  case Nil
  then show ?case by simp
next
  case (Cons d ds)
  then obtain rest where rest: "list_handovers dec (Some docs) release ds = Inr rest" by auto
  from Cons.prems obtain b where b: "valid_handover dec d release = Inr b"
    using valid_handover_returns [of d dec release] by auto
  from Cons.prems obtain r where r: "handover_entry (Some docs) d = Inr r"
    using handover_entry_returns [of d docs] by auto
  show ?case by (simp add: b r rest ebind_def)
qed

lemma handover_results_returns:
  assumes "list_all submission_doc docs"
  shows "\<exists>rs. handover_results dec q (Some docs) release = Inr rs"
proof -
  have "set (candidates q docs release) \<subseteq> set docs"
    by (auto simp: candidates_def dest: in_set_takeD)
  with assms have "list_all submission_doc (candidates q docs release)"
    by (auto simp: list_all_iff)
  from list_handovers_returns [OF this] show ?thesis
    by (simp add: handover_results_def es_search_def candidates_def ebind_def)
qed

text \<open>
  C5. Every entry of the answer of \<^verbatim>\<open>handover_results\<close> has a \<^verbatim>\<open>src_uri\<close> that the
  release matcher accepts for the requested release (the matcher reads \<^verbatim>\<open>src_uri\<close>, not
  \<^verbatim>\<open>tgt_uri\<close>), and the entries are those of the accepted candidates, one each and in
  the candidates' order: a candidate whose \<^verbatim>\<open>src_uri\<close> the matcher rejects has no entry.
\<close>

theorem handover_results_matched:
  assumes "handover_results dec q (Some docs) release = Inr rs"
  shows "(\<forall>r\<in>set rs. \<exists>u. r ''src_uri'' = Some (JStr u) \<and> matches dec u release) \<and>
         map (\<lambda>r. r ''id'') rs =
           map (\<lambda>d. Some (JStr (doc_id d))) (filter (accepted dec release) (candidates q docs release))"
proof -
  let ?acc = "filter (accepted dec release) (candidates q docs release)"
  from assms have l: "list_all2 (\<lambda>r d. r ''id'' = Some (JStr (doc_id d)) \<and>
                          r ''handover_token'' = params d ''handover_token'' \<and>
                          r ''src_uri'' = params d ''src_uri'') rs ?acc"
    unfolding handover_results_hits by (rule list_handovers_entries)
  have "\<exists>u. r ''src_uri'' = Some (JStr u) \<and> matches dec u release" if "r \<in> set rs" for r
  proof -
    from list_all2_left_member [OF l that]
    obtain d where "d \<in> set ?acc" "r ''src_uri'' = params d ''src_uri''" by blast
    then show ?thesis using accepted_src_uri [of dec release d] by auto
  qed
  moreover from l have "map (\<lambda>r. r ''id'') rs = map (\<lambda>d. Some (JStr (doc_id d))) ?acc"
    by (induction rule: list_all2_induct) auto
  ultimately show ?thesis by blast
qed

text \<open>
  In the example, the first submission has a source of release 93 and a target the
  matcher would reject; the second has a source of release 90 and a target of
  release 93. Only the first is listed.
\<close>

theorem handover_results_matched_witness:
  "\<exists>rs. handover_results ex_decimal submission_query
          (Some [ex_moved ''s1'' ''T1'' ''db_core_93_1'' ''db_93_new'' 1,
                 ex_moved ''s2'' ''T2'' ''db_core_90_1'' ''db_core_93_1'' 2]) (lit ''93'') = Inr rs \<and>
        (\<forall>r\<in>set rs. \<exists>u. r ''src_uri'' = Some (JStr u) \<and> matches ex_decimal u (lit ''93'')) \<and>
        map (\<lambda>r. r ''id'') rs = [Some (JStr (lit ''s1''))]"
proof -
  let ?docs = "[ex_moved ''s1'' ''T1'' ''db_core_93_1'' ''db_93_new'' 1,
                ex_moved ''s2'' ''T2'' ''db_core_90_1'' ''db_core_93_1'' 2]"
  have "\<exists>rs. handover_results ex_decimal submission_query (Some ?docs) (lit ''93'') = Inr rs"
    by (simp add: ex_defs list_defs match_defs)
  then obtain rs where h: "handover_results ex_decimal submission_query (Some ?docs) (lit ''93'') = Inr rs" ..
  have c: "filter (accepted ex_decimal (lit ''93'')) (candidates submission_query ?docs (lit ''93'')) =
             [ex_moved ''s1'' ''T1'' ''db_core_93_1'' ''db_93_new'' 1]"
    by (simp add: ex_defs list_defs match_defs)
  have "doc_id (ex_moved ''s1'' ''T1'' ''db_core_93_1'' ''db_93_new'' 1) = lit ''s1''"
    by (simp add: ex_defs)
  with handover_results_matched [OF h] h c show ?thesis by auto
qed

text \<open>
  C6 as the spec states it asks that each token appear at most once. The loop has no
  deduplication: two submissions of one token, both accepted, give two entries with
  that token.
\<close>

theorem handover_results_duplicates_counterexample:
  "entry_fields ''handover_token''
     (handover_results ex_decimal submission_query
        (Some [ex_submit ''s1'' ''T1'' ''db_core_93_1'' 1, ex_submit ''s2'' ''T1'' ''db_core_93_1'' 2])
        (lit ''93'')) = [Some (JStr (lit ''T1'')), Some (JStr (lit ''T1''))]"
  by (simp add: ex_defs list_defs match_defs)

text \<open>
  C6, amended. The tokens of the answer are the tokens of the accepted candidates,
  one entry for each accepted candidate and in the candidates' order; a token appears
  as often as it has accepted candidates.
\<close>

theorem handover_results_tokens:
  assumes "handover_results dec q (Some docs) release = Inr rs"
  shows "map (\<lambda>r. r ''handover_token'') rs =
           map (\<lambda>d. params d ''handover_token'')
             (filter (accepted dec release) (candidates q docs release))"
proof -
  let ?acc = "filter (accepted dec release) (candidates q docs release)"
  from assms have l: "list_all2 (\<lambda>r d. r ''id'' = Some (JStr (doc_id d)) \<and>
                          r ''handover_token'' = params d ''handover_token'' \<and>
                          r ''src_uri'' = params d ''src_uri'') rs ?acc"
    unfolding handover_results_hits by (rule list_handovers_entries)
  then show ?thesis by (induction rule: list_all2_induct) auto
qed

theorem handover_results_tokens_witness:
  "\<exists>rs. handover_results ex_decimal submission_query
          (Some [ex_submit ''s1'' ''T1'' ''db_core_93_1'' 1, ex_submit ''s2'' ''T2'' ''db_core_90_1'' 2,
                 ex_submit ''s3'' ''T1'' ''db_core_93_1'' 3]) (lit ''93'') = Inr rs \<and>
        map (\<lambda>r. r ''handover_token'') rs = [Some (JStr (lit ''T1'')), Some (JStr (lit ''T1''))]"
proof -
  let ?docs = "[ex_submit ''s1'' ''T1'' ''db_core_93_1'' 1, ex_submit ''s2'' ''T2'' ''db_core_90_1'' 2,
                ex_submit ''s3'' ''T1'' ''db_core_93_1'' 3]"
  have "\<exists>rs. handover_results ex_decimal submission_query (Some ?docs) (lit ''93'') = Inr rs"
    by (simp add: ex_defs list_defs match_defs)
  then obtain rs where h: "handover_results ex_decimal submission_query (Some ?docs) (lit ''93'') = Inr rs" ..
  have c: "map (\<lambda>d. params d ''handover_token'')
             (filter (accepted ex_decimal (lit ''93'')) (candidates submission_query ?docs (lit ''93''))) =
           [Some (JStr (lit ''T1'')), Some (JStr (lit ''T1''))]"
    by (simp add: ex_defs list_defs match_defs)
  from handover_results_tokens [OF h] h c show ?thesis by auto
qed

section \<open>Properties of the release matcher\<close>

lemma digit_not_special: "separators dec \<Longrightarrow> is_digit dec c \<Longrightarrow> c \<noteq> 95 \<and> c \<noteq> 10"
  by (auto simp: is_digit_def separators_def)

text \<open>
  Backtracking into \<^verbatim>\<open>\d+\<close> never helps here: what follows the digits accepts no
  digit, so every alternative but the longest fails at once.
\<close>

lemma digits1_bind:
  assumes "\<And>d c r. is_digit dec c \<Longrightarrow> K d (c # r) = []"
  shows "concat (map (\<lambda>(d, r). K d r) (digits1 dec s)) =
           (if takeWhile (is_digit dec) s = [] then []
            else K (takeWhile (is_digit dec) s) (dropWhile (is_digit dec) s))"
  using assms
proof (induction s arbitrary: K)
  case Nil
  then show ?case by simp
next
  case (Cons c s)
  show ?case
  proof (cases "is_digit dec c")
    case False
    then show ?thesis by simp
  next
    case True
    have ih: "concat (map (\<lambda>(d, r). K (c # d) r) (digits1 dec s)) =
        (if takeWhile (is_digit dec) s = [] then []
         else K (c # takeWhile (is_digit dec) s) (dropWhile (is_digit dec) s))"
      using Cons.IH [of "\<lambda>d r. K (c # d) r"] Cons.prems by simp
    have step: "concat (map (\<lambda>(d, r). K d r) (digits1 dec (c # s))) =
        concat (map (\<lambda>(d, r). K (c # d) r) (digits1 dec s)) @ K [c] s"
      using True by (simp add: case_prod_unfold comp_def)
    show ?thesis
    proof (cases "takeWhile (is_digit dec) s = []")
      case e: True
      then have "dropWhile (is_digit dec) s = s"
        by (cases s) (auto split: if_splits)
      with True e step ih show ?thesis by simp
    next
      case e: False
      then obtain c' s' where "s = c' # s'" "is_digit dec c'"
        by (cases s) (auto split: if_splits)
      then have "K [c] s = []" using Cons.prems by simp
      with True e step ih show ?thesis by simp
    qed
  qed
qed

lemma opt_segment_bind:
  assumes "\<And>d c r. is_digit dec c \<Longrightarrow> K (Some d) (c # r) = []"
  shows "concat (map (\<lambda>(g, r). K g r) (opt_segment dec s)) =
           (case segment dec s of None \<Rightarrow> [] | Some (d, r) \<Rightarrow> K (Some d) r) @ K None s"
proof (cases "\<exists>t. s = 95 # t")
  case False
  then have "underscore s = []" "segment dec s = None"
    by (auto simp: underscore_def segment_def split: list.splits)
  then show ?thesis by (simp add: opt_segment_def)
next
  case True
  then obtain t where s: "s = 95 # t" ..
  have "concat (map (\<lambda>(g, r). K g r) (opt_segment dec s)) =
          concat (map (\<lambda>(d, r). K (Some d) r) (digits1 dec t)) @ K None s"
    by (simp add: opt_segment_def underscore_def s case_prod_unfold comp_def)
  also have "concat (map (\<lambda>(d, r). K (Some d) r) (digits1 dec t)) =
          (if takeWhile (is_digit dec) t = [] then []
           else K (Some (takeWhile (is_digit dec) t)) (dropWhile (is_digit dec) t))"
    by (rule digits1_bind [of dec "\<lambda>d r. K (Some d) r"]) (rule assms)
  also have "\<dots> = (case segment dec s of None \<Rightarrow> [] | Some (d, r) \<Rightarrow> K (Some d) r)"
    by (simp add: segment_def s)
  finally show ?thesis .
qed

lemma segment_not_at_end: "segment dec r = Some x \<Longrightarrow> at_end r = False"
  by (auto simp: segment_def at_end_def split: list.splits if_splits)

lemma segment_rest: "segment dec s = Some (d, r) \<Longrightarrow> r = [] \<or> \<not> is_digit dec (hd r)"
  by (auto simp: segment_def split: list.splits if_splits)
     (metis dropWhile_eq_Nil_conv hd_dropWhile)

lemma segment_digit: "separators dec \<Longrightarrow> is_digit dec c \<Longrightarrow> segment dec (c # r) = None"
  by (auto simp: segment_def dest: digit_not_special)

lemma at_end_digit: "separators dec \<Longrightarrow> is_digit dec c \<Longrightarrow> \<not> at_end (c # r)"
  by (auto simp: at_end_def dest: digit_not_special)

lemma finals_eq:
  assumes sep: "separators dec"
  shows "finals dec m r3 =
     (case segment dec r3 of None \<Rightarrow> [] | Some (d, r4) \<Rightarrow> if at_end r4 then [m] else [])
     @ (if at_end r3 then [m] else [])"
  unfolding finals_def
  using opt_segment_bind [of dec "\<lambda>third r4. if at_end r4 then [m] else []" r3]
  by (simp add: at_end_digit [OF sep])

lemma finals_digit: "separators dec \<Longrightarrow> is_digit dec c \<Longrightarrow> finals dec m (c # r) = []"
  by (simp add: finals_eq segment_digit at_end_digit)

lemma tail_matches_eq:
  assumes sep: "separators dec"
  shows "[(first, second). (first, r2) \<leftarrow> digits1 dec t, (second, r3) \<leftarrow> opt_segment dec r2,
      (third, r4) \<leftarrow> opt_segment dec r3, at_end r4] =
   (if takeWhile (is_digit dec) t = [] then []
    else (case segment dec (dropWhile (is_digit dec) t) of
            None \<Rightarrow> []
          | Some (sec, r3) \<Rightarrow> finals dec (takeWhile (is_digit dec) t, Some sec) r3)
         @ finals dec (takeWhile (is_digit dec) t, None) (dropWhile (is_digit dec) t))"
proof -
  let ?K = "\<lambda>first r2. concat (map (\<lambda>(second, r3). finals dec (first, second) r3) (opt_segment dec r2))"
  have K: "?K first r2 =
      (case segment dec r2 of None \<Rightarrow> [] | Some (sec, r3) \<Rightarrow> finals dec (first, Some sec) r3)
      @ finals dec (first, None) r2" for first r2
    using opt_segment_bind [of dec "\<lambda>second r3. finals dec (first, second) r3" r2]
    by (simp add: finals_digit [OF sep])
  have v: "?K first (c # r) = []" if "is_digit dec c" for first c r
    using that by (simp add: K segment_digit [OF sep] finals_digit [OF sep])
  have "[(first, second). (first, r2) \<leftarrow> digits1 dec t, (second, r3) \<leftarrow> opt_segment dec r2,
      (third, r4) \<leftarrow> opt_segment dec r3, at_end r4] = concat (map (\<lambda>(first, r2). ?K first r2) (digits1 dec t))"
    by (simp add: finals_def case_prod_unfold)
  also have "\<dots> = (if takeWhile (is_digit dec) t = [] then []
            else ?K (takeWhile (is_digit dec) t) (dropWhile (is_digit dec) t))"
    by (rule digits1_bind) (rule v)
  finally show ?thesis by (simp add: K)
qed

lemma tail_matches_first:
  assumes sep: "separators dec"
  shows "first_of [(first, second). (first, r2) \<leftarrow> digits1 dec t,
      (second, r3) \<leftarrow> opt_segment dec r2,
      (third, r4) \<leftarrow> opt_segment dec r3, at_end r4] = tail_first dec t"
  unfolding tail_matches_eq [OF sep] tail_first_def
  by (simp add: finals_eq [OF sep] first_of_def segment_not_at_end split: option.splits)

lemma first_of_append:
  "first_of (xs @ ys) = (case first_of xs of None \<Rightarrow> first_of ys | Some x \<Rightarrow> Some x)"
  by (cases xs) (simp_all add: first_of_def)

lemma all_matches_Nil: "all_matches dec [] = []"
  by (simp add: all_matches_def underscore_def)

lemma all_matches_Cons:
  "all_matches dec (c # s) =
     (if c = 95
      then [(first, second). (first, r2) \<leftarrow> digits1 dec s, (second, r3) \<leftarrow> opt_segment dec r2,
              (third, r4) \<leftarrow> opt_segment dec r3, at_end r4]
      else [])
     @ (if c = 10 then [] else all_matches dec s)"
  by (simp add: all_matches_def underscore_def)

text \<open>The first match of the backtracking matcher is the one computed in one pass.\<close>

lemma re_match_first_match:
  assumes sep: "separators dec"
  shows "re_match dec s = first_match dec s"
proof -
  have "first_of (all_matches dec s) = first_match dec s"
  proof (induction s)
    case Nil
    then show ?case by (simp add: all_matches_Nil first_of_def)
  next
    case (Cons c s)
    show ?case
      unfolding all_matches_Cons first_of_append
      using Cons.IH tail_matches_first [OF sep, of s]
      by (simp add: first_of_def split: option.splits)
  qed
  then show ?thesis by (simp add: re_match_def first_of_def)
qed

lemma digits_split:
  assumes "numeral_seg dec d" and "r = [] \<or> \<not> is_digit dec (hd r)"
  shows "takeWhile (is_digit dec) (d @ r) = d" and "dropWhile (is_digit dec) (d @ r) = r"
proof -
  from assms(1) have all: "\<forall>c\<in>set d. is_digit dec c" by (simp add: numeral_seg_def list_all_iff)
  from assms(2) have t: "takeWhile (is_digit dec) r = []" and dr: "dropWhile (is_digit dec) r = r"
    by (cases r; simp)+
  from all t show "takeWhile (is_digit dec) (d @ r) = d" by (simp add: takeWhile_append2)
  from all dr show "dropWhile (is_digit dec) (d @ r) = r" by (simp add: dropWhile_append2)
qed

lemma takeWhile_numeral: "takeWhile (is_digit dec) t \<noteq> [] \<Longrightarrow> numeral_seg dec (takeWhile (is_digit dec) t)"
  by (auto simp: numeral_seg_def list_all_iff dest: set_takeWhileD)

lemma dropWhile_start: "dropWhile (is_digit dec) t = [] \<or> \<not> is_digit dec (hd (dropWhile (is_digit dec) t))"
  by (metis hd_dropWhile)

lemma segment_iff:
  "segment dec s = Some (d, r) \<longleftrightarrow>
     numeral_seg dec d \<and> s = 95 # d @ r \<and> (r = [] \<or> \<not> is_digit dec (hd r))"
proof
  assume a: "segment dec s = Some (d, r)"
  then obtain t where s: "s = 95 # t" and ne: "takeWhile (is_digit dec) t \<noteq> []"
    and d: "d = takeWhile (is_digit dec) t" and r: "r = dropWhile (is_digit dec) t"
    by (auto simp: segment_def split: list.splits if_splits)
  from d ne have "numeral_seg dec d" by (simp add: takeWhile_numeral)
  moreover from s d r have "s = 95 # d @ r" by simp
  moreover from r have "r = [] \<or> \<not> is_digit dec (hd r)" using dropWhile_start by simp
  ultimately show "numeral_seg dec d \<and> s = 95 # d @ r \<and> (r = [] \<or> \<not> is_digit dec (hd r))"
    by simp
next
  assume a: "numeral_seg dec d \<and> s = 95 # d @ r \<and> (r = [] \<or> \<not> is_digit dec (hd r))"
  then have "takeWhile (is_digit dec) (d @ r) = d" "dropWhile (is_digit dec) (d @ r) = r"
    by (simp_all add: digits_split)
  moreover from a have "d \<noteq> []" by (simp add: numeral_seg_def)
  ultimately show "segment dec s = Some (d, r)" using a by (simp add: segment_def)
qed

lemma segment_None_at_end: "at_end e \<Longrightarrow> segment dec e = None"
  by (auto simp: at_end_def segment_def)

lemma at_end_start: "separators dec \<Longrightarrow> at_end e \<Longrightarrow> e = [] \<or> \<not> is_digit dec (hd e)"
  by (auto simp: at_end_def is_digit_def separators_def)

lemma underscore_start: "separators dec \<Longrightarrow> (95 # r) = [] \<or> \<not> is_digit dec (hd (95 # r))"
  by (simp add: is_digit_def separators_def)

lemma tail_first_intro:
  assumes "tail_form dec t0 f sec" and "at_end e" and sep: "separators dec"
  shows "tail_first dec (t0 @ e) = Some (f, sec)"
proof -
  from assms(1) have nf: "numeral_seg dec f" by (simp add: tail_form_def)
  then have fne: "f \<noteq> []" by (simp add: numeral_seg_def)
  note e = segment_None_at_end [OF assms(2), of dec] at_end_start [OF sep assms(2)]
  note us = underscore_start [OF sep]
  from assms(1) consider
      (one) "t0 = f" "sec = None"
    | (two) d2 where "numeral_seg dec d2" "sec = Some d2" "t0 = f @ [95] @ d2"
    | (three) d2 d3 where "numeral_seg dec d2" "sec = Some d2" "numeral_seg dec d3"
        "t0 = f @ [95] @ d2 @ [95] @ d3"
    by (auto simp: tail_form_def)
  then show ?thesis
  proof cases
    case one
    from digits_split [OF nf e(2)] one fne e(1) assms(2) show ?thesis
      by (simp add: tail_first_def)
  next
    case two
    have s2: "segment dec (95 # d2 @ e) = Some (d2, e)"
      using two(1) e(2) by (simp add: segment_iff)
    from digits_split [OF nf us, of "d2 @ e"] fne s2 e(1) assms(2) two
    show ?thesis by (simp add: tail_first_def)
  next
    case three
    have s3: "segment dec (95 # d3 @ e) = Some (d3, e)"
      using three(3) e(2) by (simp add: segment_iff)
    have s2: "segment dec (95 # d2 @ 95 # d3 @ e) = Some (d2, 95 # d3 @ e)"
      using three(1) sep by (simp add: segment_iff is_digit_def separators_def)
    from digits_split [OF nf us, of "d2 @ 95 # d3 @ e"] fne s2 s3 assms(2) three
    show ?thesis by (simp add: tail_first_def)
  qed
qed

lemma tail_first_elim:
  assumes "tail_first dec t = Some (f, sec)"
  shows "\<exists>t0 e. t = t0 @ e \<and> at_end e \<and> tail_form dec t0 f sec"
proof -
  let ?r2 = "dropWhile (is_digit dec) t"
  from assms have ne: "takeWhile (is_digit dec) t \<noteq> []" by (auto simp: tail_first_def split: if_splits)
  from assms have f: "f = takeWhile (is_digit dec) t"
    by (auto simp: tail_first_def split: if_splits option.splits)
  with ne have nf: "numeral_seg dec f" by (simp add: takeWhile_numeral)
  have t: "t = f @ ?r2" by (simp add: f)
  show ?thesis
  proof (cases "segment dec ?r2")
    case None
    with assms ne have "at_end ?r2" "sec = None"
      by (auto simp: tail_first_def split: if_splits)
    with nf t have "t = f @ ?r2 \<and> at_end ?r2 \<and> tail_form dec f f sec"
      by (simp add: tail_form_def)
    then show ?thesis by blast
  next
    case (Some a)
    then obtain d2 r3 where a: "segment dec ?r2 = Some (d2, r3)" by (cases a) auto
    then have n2: "numeral_seg dec d2" and r2: "?r2 = 95 # d2 @ r3"
      by (simp_all add: segment_iff)
    show ?thesis
    proof (cases "segment dec r3")
      case None
      with assms ne a have "at_end r3" "sec = Some d2"
        by (auto simp: tail_first_def split: if_splits)
      moreover from t r2 have "t = (f @ [95] @ d2) @ r3" by simp
      moreover from nf n2 \<open>sec = Some d2\<close> have "tail_form dec (f @ [95] @ d2) f sec"
        by (simp add: tail_form_def)
      ultimately show ?thesis by blast
    next
      case (Some b)
      then obtain d3 r4 where b: "segment dec r3 = Some (d3, r4)" by (cases b) auto
      then have n3: "numeral_seg dec d3" and r3: "r3 = 95 # d3 @ r4"
        by (simp_all add: segment_iff)
      from assms ne a b have "at_end r4" "sec = Some d2"
        by (auto simp: tail_first_def split: if_splits)
      moreover from t r2 r3 have "t = (f @ [95] @ d2 @ [95] @ d3) @ r4" by simp
      moreover from nf n2 n3 \<open>sec = Some d2\<close> have "tail_form dec (f @ [95] @ d2 @ [95] @ d3) f sec"
        by (auto simp: tail_form_def)
      ultimately show ?thesis by blast
    qed
  qed
qed

lemma tail_first_iff:
  assumes sep: "separators dec"
  shows "tail_first dec t = Some (f, sec) \<longleftrightarrow>
           (\<exists>t0. tail_form dec t0 f sec \<and> (t = t0 \<or> t = t0 @ [10]))"
proof
  assume "tail_first dec t = Some (f, sec)"
  from tail_first_elim [OF this] show "\<exists>t0. tail_form dec t0 f sec \<and> (t = t0 \<or> t = t0 @ [10])"
    by (auto simp: at_end_def)
next
  assume "\<exists>t0. tail_form dec t0 f sec \<and> (t = t0 \<or> t = t0 @ [10])"
  then obtain t0 where t0: "tail_form dec t0 f sec" and "t = t0 @ [] \<or> t = t0 @ [10]" by auto
  then show "tail_first dec t = Some (f, sec)"
    using tail_first_intro [OF t0 _ sep, of "[]"] tail_first_intro [OF t0 _ sep, of "[10]"]
    by (auto simp: at_end_def)
qed

text \<open>The parses of the spec's pattern, by the position of their underscore.\<close>

lemma parses_at_empty: "\<not> parses_at dec [] p f sec"
  by (simp add: parses_at_def)

lemma parses_at_here:
  "separators dec \<Longrightarrow>
     parses_at dec (c # s) [] f sec \<longleftrightarrow> c = 95 \<and> tail_first dec s = Some (f, sec)"
  by (auto simp: parses_at_def tail_first_iff)

lemma parses_at_later:
  "parses_at dec (c # s) (c' # p) f sec \<longleftrightarrow> c' = c \<and> c \<noteq> 10 \<and> parses_at dec s p f sec"
  by (auto simp: parses_at_def)

lemma captured_here:
  assumes "tail_first dec s = Some m" and sep: "separators dec"
  shows "captured dec (95 # s) f sec \<longleftrightarrow> m = (f, sec)"
proof
  assume "captured dec (95 # s) f sec"
  then obtain p where p: "parses_at dec (95 # s) p f sec"
    and least: "\<forall>p' f' sec'. parses_at dec (95 # s) p' f' sec' \<longrightarrow> length p \<le> length p'"
    by (auto simp: captured_def)
  from assms have "parses_at dec (95 # s) [] (fst m) (snd m)" by (simp add: parses_at_here)
  with least have "length p \<le> length ([] :: str)" by blast
  then have "p = []" by simp
  with p assms show "m = (f, sec)" by (simp add: parses_at_here)
next
  assume "m = (f, sec)"
  with assms have "parses_at dec (95 # s) [] f sec" by (simp add: parses_at_here)
  then show "captured dec (95 # s) f sec" unfolding captured_def by (intro exI [of _ "[]"]) simp
qed

lemma captured_later:
  assumes "\<not> (c = 95 \<and> tail_first dec s \<noteq> None)" and sep: "separators dec"
  shows "captured dec (c # s) f sec \<longleftrightarrow> c \<noteq> 10 \<and> captured dec s f sec"
proof -
  have none_here: "\<not> parses_at dec (c # s) [] f' sec'" for f' sec'
    using assms by (auto simp: parses_at_here)
  have shape: "parses_at dec (c # s) p f' sec' \<longleftrightarrow>
      (\<exists>q. p = c # q \<and> c \<noteq> 10 \<and> parses_at dec s q f' sec')" for p f' sec'
    using none_here [of f' sec'] by (cases p) (auto simp: parses_at_later)
  show ?thesis
  proof
    assume "captured dec (c # s) f sec"
    then obtain p where p: "parses_at dec (c # s) p f sec"
      and least: "\<forall>p' f' sec'. parses_at dec (c # s) p' f' sec' \<longrightarrow> length p \<le> length p'"
      by (auto simp: captured_def)
    from p shape obtain q where q: "p = c # q" "c \<noteq> 10" "parses_at dec s q f sec" by blast
    have "length q \<le> length q'" if "parses_at dec s q' f' sec'" for q' f' sec'
    proof -
      from that q(2) have "parses_at dec (c # s) (c # q') f' sec'" by (simp add: parses_at_later)
      with least have "length p \<le> length (c # q')" by blast
      with q(1) show ?thesis by simp
    qed
    with q show "c \<noteq> 10 \<and> captured dec s f sec" unfolding captured_def by blast
  next
    assume a: "c \<noteq> 10 \<and> captured dec s f sec"
    then obtain q where q: "parses_at dec s q f sec"
      and least: "\<forall>q' f' sec'. parses_at dec s q' f' sec' \<longrightarrow> length q \<le> length q'"
      by (auto simp: captured_def)
    from q a have "parses_at dec (c # s) (c # q) f sec" by (simp add: parses_at_later)
    moreover have "length (c # q) \<le> length p'" if "parses_at dec (c # s) p' f' sec'" for p' f' sec'
    proof -
      from that shape obtain q' where "p' = c # q'" "parses_at dec s q' f' sec'" by blast
      with least show ?thesis by auto
    qed
    ultimately show "captured dec (c # s) f sec" unfolding captured_def by blast
  qed
qed

lemma captured_empty: "\<not> captured dec [] f sec"
  by (simp add: captured_def parses_at_empty)

lemma first_match_captured:
  assumes sep: "separators dec"
  shows "first_match dec s = Some (f, sec) \<longleftrightarrow> captured dec s f sec"
proof (induction s)
  case Nil
  then show ?case by (simp add: captured_empty)
next
  case (Cons c s)
  show ?case
  proof (cases "c = 95 \<and> tail_first dec s \<noteq> None")
    case True
    then obtain m where m: "tail_first dec s = Some m" and c: "c = 95" by auto
    from captured_here [OF m sep, of f sec] m c show ?thesis by auto
  next
    case False
    from captured_later [OF False sep, of f sec] False Cons.IH show ?thesis
      by (auto split: option.splits)
  qed
qed

lemma re_match_captured:
  "separators dec \<Longrightarrow> re_match dec s = Some (f, sec) \<longleftrightarrow> captured dec s f sec"
  by (simp add: re_match_first_match first_match_captured)

lemma captured_unique:
  assumes "separators dec" and "captured dec s f sec" and "captured dec s f' sec'"
  shows "f' = f \<and> sec' = sec"
  using assms(2,3) by (simp add: re_match_captured [OF assms(1), symmetric])

text \<open>On an identifier without a newline the parses are those of the spec's wording.\<close>

lemma parses_at_plain:
  assumes "10 \<notin> set s"
  shows "parses_at dec s p f sec \<longleftrightarrow> (\<exists>t. tail_form dec t f sec \<and> s = p @ [95] @ t)"
  using assms by (auto simp: parses_at_def)

lemma no_parse_iff:
  assumes sep: "separators dec"
  shows "(\<forall>p f sec. \<not> parses_at dec s p f sec) \<longleftrightarrow> re_match dec s = None"
proof -
  have "(\<forall>p f sec. \<not> parses_at dec s p f sec) \<longleftrightarrow> first_match dec s = None"
  proof (induction s)
    case Nil
    then show ?case by (simp add: parses_at_empty)
  next
    case (Cons c s)
    have split: "(\<forall>p f sec. \<not> parses_at dec (c # s) p f sec) \<longleftrightarrow>
        (\<forall>f sec. \<not> parses_at dec (c # s) [] f sec) \<and>
        (\<forall>c' q f sec. \<not> parses_at dec (c # s) (c' # q) f sec)"
      by (metis list.exhaust)
    show ?case
      unfolding split parses_at_here [OF sep] parses_at_later
      using Cons.IH by (auto split: option.splits)
  qed
  then show ?thesis by (simp add: re_match_first_match [OF sep])
qed

text \<open>
  C3. \<^verbatim>\<open>valid_handover\<close> answers true on an identifier and a release exactly when the
  identifier ends in the trailing numeric pattern and either the first captured
  number is the release, or the second captured number is present, is the release
  and exceeds the first by 53 as integers. The pattern is the regular expression of
  the source, with the reading Python 3 gives it: a digit is any Unicode decimal
  digit (the table \<open>dec\<close>, in which the underscore and the newline are none), the
  prefix \<^verbatim>\<open>.*?\<close> crosses no newline, \<^verbatim>\<open>$\<close> allows one final newline, and the captured
  numbers are those of the parse with the shortest prefix (\<open>captured\<close>, which
  determines them by \<open>captured_unique\<close>). An identifier with no parse at all gives
  false; the function is total, so it gives no error.
\<close>

theorem matches_spec:
  assumes sep: "separators dec"
  shows "(matches dec identifier release \<longleftrightarrow> spec_matches dec identifier release) \<and>
         ((\<forall>p first second. \<not> parses_at dec identifier p first second) \<longrightarrow>
            \<not> matches dec identifier release)"
proof
  show "matches dec identifier release \<longleftrightarrow> spec_matches dec identifier release"
  proof
    assume "matches dec identifier release"
    then obtain f sec where m: "re_match dec identifier = Some (f, sec)"
      and d: "f = release \<or> (sec = Some release \<and> py_int dec release - py_int dec f = 53)"
      by (auto simp: matches_def split: option.splits)
    from m have "captured dec identifier f sec" by (simp add: re_match_captured [OF sep])
    with d show "spec_matches dec identifier release" unfolding spec_matches_def by blast
  next
    assume "spec_matches dec identifier release"
    then obtain f sec where c: "captured dec identifier f sec"
      and d: "f = release \<or> (sec = Some release \<and> py_int dec release - py_int dec f = 53)"
      by (auto simp: spec_matches_def)
    from c have "re_match dec identifier = Some (f, sec)" by (simp add: re_match_captured [OF sep])
    with d show "matches dec identifier release" by (auto simp: matches_def)
  qed
  show "(\<forall>p first second. \<not> parses_at dec identifier p first second) \<longrightarrow>
          \<not> matches dec identifier release"
  proof
    assume "\<forall>p first second. \<not> parses_at dec identifier p first second"
    then have "re_match dec identifier = None" by (simp add: no_parse_iff [OF sep])
    then show "\<not> matches dec identifier release" by (simp add: matches_def)
  qed
qed

text \<open>
  The examples are those of the spec, an identifier without a number, and an
  identifier and a release written in Arabic-Indic digits (40 and 93), which the
  matcher accepts as it accepts their ASCII forms.
\<close>

theorem matches_spec_witness:
  "separators ex_decimal \<and>
   spec_matches ex_decimal (lit ''db_core_93_146'') (lit ''146'') \<and>
   \<not> spec_matches ex_decimal (lit ''db_core_93_100'') (lit ''100'') \<and>
   spec_matches ex_decimal (lit ''db_core_93_1'') (lit ''93'') \<and>
   \<not> spec_matches ex_decimal (lit ''db_core_93_1'') (lit ''94'') \<and>
   spec_matches ex_decimal (lit ''db_'' @ [1636, 1632] @ lit ''_'' @ [1641, 1635]) [1641, 1635] \<and>
   (\<forall>p first second. \<not> parses_at ex_decimal (lit ''db_core'') p first second) \<and>
   \<not> matches ex_decimal (lit ''db_core'') (lit ''93'')"
proof -
  have sep: "separators ex_decimal" by (simp add: separators_def ex_decimal_def)
  have a: "matches ex_decimal (lit ''db_core_93_146'') (lit ''146'')" by (simp add: match_defs)
  have b: "\<not> matches ex_decimal (lit ''db_core_93_100'') (lit ''100'')" by (simp add: match_defs)
  have c: "matches ex_decimal (lit ''db_core_93_1'') (lit ''93'')" by (simp add: match_defs)
  have d: "\<not> matches ex_decimal (lit ''db_core_93_1'') (lit ''94'')" by (simp add: match_defs)
  have u: "matches ex_decimal (lit ''db_'' @ [1636, 1632] @ lit ''_'' @ [1641, 1635]) [1641, 1635]"
    by (simp add: match_defs)
  have "re_match ex_decimal (lit ''db_core'') = None" by (simp add: match_defs)
  then have e: "\<forall>p first second. \<not> parses_at ex_decimal (lit ''db_core'') p first second"
    by (simp add: no_parse_iff [OF sep])
  show ?thesis
    using sep a b c d u e
      matches_spec [OF sep, of "lit ''db_core_93_146''" "lit ''146''"]
      matches_spec [OF sep, of "lit ''db_core_93_100''" "lit ''100''"]
      matches_spec [OF sep, of "lit ''db_core_93_1''" "lit ''93''"]
      matches_spec [OF sep, of "lit ''db_core_93_1''" "lit ''94''"]
      matches_spec [OF sep, of "lit ''db_'' @ [1636, 1632] @ lit ''_'' @ [1641, 1635]" "[1641, 1635]"]
      matches_spec [OF sep, of "lit ''db_core''" "lit ''93''"]
    by blast
qed

text \<open>Every match reports numbers: non-empty strings of decimal digits.\<close>

lemma digits1_numeral: "(d, r) \<in> set (digits1 dec s) \<Longrightarrow> numeral_seg dec d"
  by (induction s arbitrary: d r) (auto simp: numeral_seg_def split: if_splits)

lemma opt_segment_numeral: "(Some d, r) \<in> set (opt_segment dec s) \<Longrightarrow> numeral_seg dec d"
  by (auto simp: opt_segment_def dest: digits1_numeral)

lemma all_matches_numeral:
  assumes "(f, sec) \<in> set (all_matches dec s)"
  shows "numeral_seg dec f" and "sec = Some d \<Longrightarrow> numeral_seg dec d"
  using assms
  by (auto simp: all_matches_def dest: digits1_numeral opt_segment_numeral split: if_splits)

lemma re_match_member: "re_match dec s = Some m \<Longrightarrow> m \<in> set (all_matches dec s)"
  by (auto simp: re_match_def split: list.splits)

text \<open>
  C9. A release that contains a character other than a decimal digit is matched by no
  identifier: both captured numbers consist of decimal digits only. A decimal digit
  is a character of the class \<^verbatim>\<open>\d\<close>, that is, a Unicode decimal digit; the statement
  holds for every table \<open>dec\<close>.
\<close>

theorem matches_digits:
  assumes "\<exists>c\<in>set release. \<not> is_digit dec c"
  shows "\<not> matches dec identifier release"
proof
  assume "matches dec identifier release"
  then obtain f sec where m: "re_match dec identifier = Some (f, sec)"
    and d: "f = release \<or> sec = Some release"
    by (auto simp: matches_def split: option.splits)
  from m have "(f, sec) \<in> set (all_matches dec identifier)" by (rule re_match_member)
  from d all_matches_numeral [OF this] have "numeral_seg dec release" by auto
  with assms show False by (auto simp: numeral_seg_def list_all_iff)
qed

text \<open>
  In the example the identifier parses (it matches release 93) and the release
  \<^verbatim>\<open>9x\<close> has a character that is no digit.
\<close>

theorem matches_digits_witness:
  "(\<exists>c\<in>set (lit ''9x''). \<not> is_digit ex_decimal c) \<and>
   matches ex_decimal (lit ''db_core_93_1'') (lit ''93'') \<and>
   \<not> matches ex_decimal (lit ''db_core_93_1'') (lit ''9x'')"
proof -
  have h: "\<exists>c\<in>set (lit ''9x''). \<not> is_digit ex_decimal c"
    by (simp add: is_digit_def ex_decimal_def lit_def)
  have p: "matches ex_decimal (lit ''db_core_93_1'') (lit ''93'')" by (simp add: match_defs)
  show ?thesis using matches_digits [OF h, of "lit ''db_core_93_1''"] h p by blast
qed

end
